theory Spec2Isabelle
  imports Main
begin

section \<open>JavaScript values and objects\<close>

text \<open>
  The values that flow through \<^verbatim>\<open>src/index.jsx\<close>: the primitives, plain data objects, the
  handle that the engine's \<^verbatim>\<open>atom\<close> and \<^verbatim>\<open>selector\<close> return (the engine identifies it by
  its key), the functions that every object inherits from \<^verbatim>\<open>Object.prototype\<close> (by name),
  and \<^verbatim>\<open>Object.prototype\<close> itself. Numbers are the integers. The functions that the
  application writes are not in this type: they are HOL functions.
\<close>

datatype jsval =
    VUndefined
  | VNull
  | VBool bool
  | VNum int
  | VStr string
  | VObj "(string \<times> jsval) list"
  | VCell string
  | VFun string
  | VObjectPrototype

subsection \<open>Objects used as dictionaries\<close>

text \<open>
  \<^verbatim>\<open>atoms\<close>, \<^verbatim>\<open>$\<close>, \<^verbatim>\<open>setters\<close> and \<^verbatim>\<open>updated\<close> are created by \<^verbatim>\<open>{}\<close>, so a name that is not
  an own property is looked up in \<^verbatim>\<open>Object.prototype\<close>: its eleven functions are found
  there, and \<^verbatim>\<open>__proto__\<close> is an accessor whose getter returns the prototype of the object
  that is read and whose setter replaces it.
\<close>

type_synonym jsobj = "string \<rightharpoonup> jsval"

definition object_prototype_functions :: "string list" where
  "object_prototype_functions =
     [''constructor'', ''hasOwnProperty'', ''isPrototypeOf'', ''propertyIsEnumerable'',
      ''toLocaleString'', ''toString'', ''valueOf'', ''__defineGetter__'', ''__defineSetter__'',
      ''__lookupGetter__'', ''__lookupSetter__'']"

definition object_prototype_names :: "string list" where
  "object_prototype_names = ''__proto__'' # object_prototype_functions"

datatype found = Data jsval | ProtoAccessor | Absent

definition object_prototype_member :: "string \<Rightarrow> found" where
  "object_prototype_member k =
     (if k = ''__proto__'' then ProtoAccessor
      else if k \<in> set object_prototype_functions then Data (VFun k)
      else Absent)"

text \<open>
  \<^verbatim>\<open>o[k]\<close> for \<^verbatim>\<open>atoms\<close>, \<^verbatim>\<open>$\<close> and \<^verbatim>\<open>setters\<close>, whose prototype stays \<^verbatim>\<open>Object.prototype\<close>. The
  map holds the own properties. An object literal has no own property \<^verbatim>\<open>__proto__\<close> and the
  program's assignments to these three objects never make one (an assignment of that name
  goes to the accessor, and the program never reaches one: see \<open>Injection_keys\<close> below),
  so the map is not read at that name.
\<close>

definition obj_get :: "jsobj \<Rightarrow> string \<Rightarrow> jsval" where
  "obj_get m k =
     (case (if k = ''__proto__'' then None else m k) of
        Some v \<Rightarrow> v
      | None \<Rightarrow>
          (case object_prototype_member k of
             Data v \<Rightarrow> v
           | ProtoAccessor \<Rightarrow> VObjectPrototype
           | Absent \<Rightarrow> VUndefined))"

text \<open>
  \<^verbatim>\<open>updated\<close> is written under any name that a caller passes to \<^verbatim>\<open>set\<close>, also
  \<^verbatim>\<open>__proto__\<close>, so its prototype can change and is part of the state. What a name that is
  not an own property finds in a prototype \<open>p\<close> and behind it: a plain data object has its
  properties and then those of \<^verbatim>\<open>Object.prototype\<close>; behind \<^verbatim>\<open>null\<close> there is nothing. (A
  function or an engine handle as a prototype is taken with the members of
  \<^verbatim>\<open>Object.prototype\<close> only: its own members are the language's and the engine's.)
\<close>

fun inherited :: "jsval \<Rightarrow> string \<Rightarrow> found" where
  "inherited (VObj ps) k = (case map_of ps k of Some v \<Rightarrow> Data v | None \<Rightarrow> object_prototype_member k)"
| "inherited VObjectPrototype k = object_prototype_member k"
| "inherited (VCell c) k = object_prototype_member k"
| "inherited (VFun f) k = object_prototype_member k"
| "inherited p k = Absent"

fun is_object :: "jsval \<Rightarrow> bool" where
  "is_object (VObj ps) = True"
| "is_object (VCell c) = True"
| "is_object (VFun f) = True"
| "is_object VObjectPrototype = True"
| "is_object v = False"

text \<open>ramda's \<^verbatim>\<open>isNil\<close> and \<^verbatim>\<open>is(String)\<close>, and the truthiness that \<^verbatim>\<open>||\<close> tests.\<close>

definition isNil :: "jsval \<Rightarrow> bool" where
  "isNil v = (v = VUndefined \<or> v = VNull)"

fun is_String :: "jsval \<Rightarrow> bool" where
  "is_String (VStr s) = True"
| "is_String v = False"

fun truthy :: "jsval \<Rightarrow> bool" where
  "truthy VUndefined = False"
| "truthy VNull = False"
| "truthy (VBool b) = b"
| "truthy (VNum n) = (n \<noteq> 0)"
| "truthy (VStr s) = (s \<noteq> [])"
| "truthy (VObj ps) = True"
| "truthy (VCell k) = True"
| "truthy (VFun f) = True"
| "truthy VObjectPrototype = True"

text \<open>
  A value used as a property name (\<^verbatim>\<open>atoms[v2]\<close>) is converted to a string first: a string
  is itself, a number is its decimal numeral, an object is \<^verbatim>\<open>[object Object]\<close>, a built-in
  function is its source text as V8 prints it.
\<close>

fun digits :: "nat \<Rightarrow> string" where
  "digits n =
     (if n < 10 then [''0123456789'' ! n]
      else digits (n div 10) @ [''0123456789'' ! (n mod 10)])"

declare digits.simps [simp del]

fun to_property_key :: "jsval \<Rightarrow> string" where
  "to_property_key VUndefined = ''undefined''"
| "to_property_key VNull = ''null''"
| "to_property_key (VBool b) = (if b then ''true'' else ''false'')"
| "to_property_key (VNum n) = (if n < 0 then CHR ''-'' # digits (nat (- n)) else digits (nat n))"
| "to_property_key (VStr s) = s"
| "to_property_key (VObj ps) = ''[object Object]''"
| "to_property_key (VCell k) = ''[object Object]''"
| "to_property_key (VFun f) = ''function '' @ f @ ''() { [native code] }''"
| "to_property_key VObjectPrototype = ''[object Object]''"

section \<open>Errors\<close>

text \<open>
  A call either returns or throws; what it did to the state before throwing stays done.
  \<open>TypeError\<close> is JavaScript's own (calling \<^verbatim>\<open>undefined\<close>); \<open>EngineError\<close> stands for
  whatever the engine raises, which the program neither catches nor translates.
\<close>

datatype error = TypeError | EngineError

datatype 'a outcome = Normal 'a | Thrown error

section \<open>The reactive-state engine\<close>

text \<open>
  Modelled from the spec: the external reactive-state engine (the imports from
  \<^verbatim>\<open>recoil\<close> at the top of \<^verbatim>\<open>src/index.jsx\<close>), which is not part of the repository. The
  spec (section 6) asks of it: create a leaf cell with key and default, create a computed
  cell with key and derivation over other cells, subscribe a component to a cell and get
  back the current value and a setter, and a root boundary with isolated or inherited
  values for a subtree.

  A derivation is a function of the capability \<^verbatim>\<open>get\<close> that it is handed. The closure that
  \<^verbatim>\<open>Injection\<close> puts around a derivation (lines 49 to 53) is the constructor \<open>Wrapper\<close>, so
  that the number of wrappers around a function can be counted.
\<close>

datatype deriv =
    Derive "(jsval \<Rightarrow> jsval option) \<Rightarrow> jsval option"
  | Wrapper deriv

datatype node = Atom jsval | Selector deriv

text \<open>The setter that \<^verbatim>\<open>useRecoilState\<close> returns writes one cell in the store of one root.\<close>

datatype setter = SetRecoil nat jsval

section \<open>Injection specs and the state of the process\<close>

text \<open>
  An entry of the array given to \<^verbatim>\<open>inject\<close> is a state name or an object
  \<^verbatim>\<open>{key, default, get, id}\<close>. The objects belong to the caller and \<^verbatim>\<open>Injection\<close> writes to
  them, so they live in a heap and an entry refers to one by its address. A field that the
  object does not have is \<open>None\<close>.
\<close>

record spec =
  spec_key :: string
  spec_default :: "jsval option"
  spec_get :: "deriv option"
  spec_id :: "jsval option"

datatype entry = Key string | Spec nat

text \<open>
  The state of the process: the module variables \<^verbatim>\<open>atoms\<close> and \<^verbatim>\<open>refs\<close> (lines 14 and 15),
  the caller's spec objects, and the engine's state: the cells created so far, the values
  stored in each root, and the number of roots created.
\<close>

record world =
  atoms :: jsobj
  refs :: jsobj
  heap :: "nat \<Rightarrow> spec"
  nodes :: "string \<rightharpoonup> node"
  stores :: "nat \<Rightarrow> jsobj"
  roots :: nat

subsection \<open>Engine operations\<close>

text \<open>
  Modelled from the spec: the engine's \<^verbatim>\<open>atom({key, default})\<close> and \<^verbatim>\<open>selector({key, get})\<close>,
  which create the cell and return its handle.
\<close>

definition atom :: "string \<Rightarrow> jsval \<Rightarrow> world \<Rightarrow> jsval \<times> world" where
  "atom k d w = (VCell k, w\<lparr>nodes := (nodes w)(k \<mapsto> Atom d)\<rparr>)"

definition selector :: "string \<Rightarrow> deriv \<Rightarrow> world \<Rightarrow> jsval \<times> world" where
  "selector k g w = (VCell k, w\<lparr>nodes := (nodes w)(k \<mapsto> Selector g)\<rparr>)"

text \<open>
  The wrapper of lines 49 to 53, applied to the engine's \<^verbatim>\<open>get\<close>:
  \<^verbatim>\<open>({ get }) => _get({ get: v2 => !isNil(atoms[v2]) && is(String)(v2) ? get(atoms[v2]) : get(v2) })\<close>.
  It reads the module variable \<^verbatim>\<open>atoms\<close> when the derivation runs.
\<close>

definition wrapped_get :: "jsobj \<Rightarrow> (jsval \<Rightarrow> jsval option) \<Rightarrow> jsval \<Rightarrow> jsval option" where
  "wrapped_get reg g v2 =
     (if \<not> isNil (obj_get reg (to_property_key v2)) \<and> is_String v2
      then g (obj_get reg (to_property_key v2))
      else g v2)"

fun run_deriv :: "jsobj \<Rightarrow> deriv \<Rightarrow> (jsval \<Rightarrow> jsval option) \<Rightarrow> jsval option" where
  "run_deriv reg (Derive f) g = f g"
| "run_deriv reg (Wrapper get0) g = run_deriv reg get0 (wrapped_get reg g)"

text \<open>
  Modelled from the spec: the engine's \<^verbatim>\<open>get\<close> in one store. A leaf cell has the value
  written to it, or its default; a computed cell runs its derivation, which reads other
  cells. \<open>None\<close> is a failure of the engine (the argument is not a cell, or the chain of
  derivations is longer than the fuel).
\<close>

primrec engine_get :: "nat \<Rightarrow> jsobj \<Rightarrow> (string \<rightharpoonup> node) \<Rightarrow> jsobj \<Rightarrow> jsval \<Rightarrow> jsval option" where
  "engine_get 0 reg ns st v = None"
| "engine_get (Suc n) reg ns st v =
     (case v of
        VCell k \<Rightarrow>
          (case ns k of
             None \<Rightarrow> None
           | Some (Atom d) \<Rightarrow> Some (case st k of None \<Rightarrow> d | Some x \<Rightarrow> x)
           | Some (Selector g) \<Rightarrow> run_deriv reg g (engine_get n reg ns st))
      | _ \<Rightarrow> None)"

text \<open>
  Modelled from the spec: the engine's \<^verbatim>\<open>useRecoilState(cell)\<close> under the root \<open>r\<close>, which
  gives the current value and the setter.
\<close>

definition useRecoilState :: "nat \<Rightarrow> nat \<Rightarrow> jsval \<Rightarrow> world \<Rightarrow> (jsval \<times> setter) option" where
  "useRecoilState fuel r c w =
     (case engine_get fuel (atoms w) (nodes w) (stores w r) c of
        None \<Rightarrow> None
      | Some x \<Rightarrow> Some (x, SetRecoil r c))"

text \<open>
  Modelled from the spec: calling the engine's setter. A leaf cell takes the value in the
  store of the setter's root (the engine's notification and the re-render come later, and
  are not part of the call); a computed cell made from \<^verbatim>\<open>{key, get}\<close> has no \<^verbatim>\<open>set\<close> and
  the engine refuses the write.
\<close>

fun call_setter :: "setter \<Rightarrow> jsval \<Rightarrow> world \<Rightarrow> unit outcome \<times> world" where
  "call_setter (SetRecoil r (VCell k)) x w =
     (case nodes w k of
        Some (Atom d) \<Rightarrow> (Normal (), w\<lparr>stores := (stores w)(r := (stores w r)(k \<mapsto> x))\<rparr>)
      | _ \<Rightarrow> (Thrown EngineError, w))"
| "call_setter (SetRecoil r c) x w = (Thrown EngineError, w)"

text \<open>
  Modelled from the spec: the engine's root boundary \<^verbatim>\<open><RecoilRoot override={...}>\<close>.
  With \<^verbatim>\<open>override\<close> false under an enclosing root, the subtree uses the enclosing root;
  otherwise the root is a new one with an empty store.
\<close>

definition RecoilRoot :: "bool \<Rightarrow> nat option \<Rightarrow> world \<Rightarrow> nat \<times> world" where
  "RecoilRoot override parent w =
     (case (override, parent) of
        (False, Some p) \<Rightarrow> (p, w)
      | _ \<Rightarrow> (roots w, w\<lparr>stores := (stores w)(roots w := Map.empty), roots := Suc (roots w)\<rparr>))"

section \<open>The program\<close>

subsection \<open>Roid (lines 17 to 35)\<close>

text \<open>
  \<^verbatim>\<open>if (isNil(atoms[k])) atoms[k] = atom({ key: k, default: d })\<close>, the step that \<^verbatim>\<open>Path\<close>
  and the leaf branch of \<^verbatim>\<open>Injection\<close> share.
\<close>

definition register_atom :: "string \<Rightarrow> jsval \<Rightarrow> world \<Rightarrow> world" where
  "register_atom k d w =
     (if isNil (obj_get (atoms w) k)
      then (case atom k d w of (c, w') \<Rightarrow> w'\<lparr>atoms := (atoms w')(k \<mapsto> c)\<rparr>)
      else w)"

text \<open>
  \<^verbatim>\<open>Path\<close> walks the properties of \<^verbatim>\<open>defaults\<close> in their order; the object is the list of
  its properties. (\<^verbatim>\<open>atoms\<close> is never nil here, so line 19 does nothing.)
\<close>

fun Path :: "(string \<times> jsval) list \<Rightarrow> world \<Rightarrow> world" where
  "Path [] w = w"
| "Path ((k, d) # ds) w = Path ds (register_atom k d w)"

text \<open>
  Mounting \<^verbatim>\<open><Roid defaults override>\<close> under the root \<open>parent\<close> (if any): the root of the
  subtree and the new state. \<^verbatim>\<open>override\<close> is true when the caller leaves it out.
\<close>

definition Roid :: "(string \<times> jsval) list option \<Rightarrow> bool \<Rightarrow> nat option \<Rightarrow> world \<Rightarrow> nat \<times> world" where
  "Roid defaults override parent w =
     (case RecoilRoot override parent w of
        (r, w1) \<Rightarrow> (r, Path (case defaults of None \<Rightarrow> [] | Some ds \<Rightarrow> ds) w1))"

subsection \<open>Injection: the loop over the entries (lines 38 to 70)\<close>

text \<open>
  What one render of \<^verbatim>\<open>Injection\<close> builds: \<^verbatim>\<open>$\<close>, \<^verbatim>\<open>setters\<close> and \<^verbatim>\<open>updated\<close> (its own
  properties and its prototype).
\<close>

record injection =
  dollar :: jsobj
  setters :: "string \<rightharpoonup> setter"
  updated :: jsobj
  updated_proto :: jsval

text \<open>
  Lines 43 to 66 for one entry \<open>v\<close>: the key, the cell \<^verbatim>\<open>_atom\<close> and the state after the
  registration. An object with \<^verbatim>\<open>get\<close> has that field replaced by the wrapper, whether or
  not the key is registered already. In the other branch the default handed to \<^verbatim>\<open>atom\<close>
  is the local \<^verbatim>\<open>_default\<close>, which line 44 sets to \<^verbatim>\<open>null\<close> and nothing assigns to later.
\<close>

definition resolve :: "entry \<Rightarrow> world \<Rightarrow> string \<times> jsval \<times> world" where
  "resolve v w =
     (let default0 = VNull in
      case v of
        Spec a \<Rightarrow>
          (case spec_get (heap w a) of
             Some get0 \<Rightarrow>
               (let key = spec_key (heap w a);
                    w1 = w\<lparr>heap := (heap w)(a := (heap w a)\<lparr>spec_get := Some (Wrapper get0)\<rparr>)\<rparr>;
                    w2 = (if isNil (obj_get (atoms w1) key)
                          then (case selector key (Wrapper get0) w1 of
                                  (c, w') \<Rightarrow> w'\<lparr>atoms := (atoms w')(key \<mapsto> c)\<rparr>)
                          else w1)
                in (key, obj_get (atoms w2) key, w2))
           | None \<Rightarrow>
               (let key = spec_key (heap w a);
                    w1 = register_atom key default0 w
                in (key, obj_get (atoms w1) key, w1)))
      | Key k \<Rightarrow>
          (let w1 = register_atom k default0 w
           in (k, obj_get (atoms w1) k, w1)))"

text \<open>Lines 67 to 69: subscribe, then record the value and the setter under the key.\<close>

definition inject_entry ::
  "nat \<Rightarrow> nat \<Rightarrow> entry \<Rightarrow> injection \<Rightarrow> world \<Rightarrow> injection outcome \<times> world" where
  "inject_entry fuel r v b w =
     (case resolve v w of
        (key, c, w1) \<Rightarrow>
          (case useRecoilState fuel r c w1 of
             None \<Rightarrow> (Thrown EngineError, w1)
           | Some (x, s) \<Rightarrow>
               (Normal (b\<lparr>dollar := (dollar b)(key \<mapsto> x), setters := (setters b)(key \<mapsto> s)\<rparr>),
                w1)))"

fun inject_loop ::
  "nat \<Rightarrow> nat \<Rightarrow> entry list \<Rightarrow> injection \<Rightarrow> world \<Rightarrow> injection outcome \<times> world" where
  "inject_loop fuel r [] b w = (Normal b, w)"
| "inject_loop fuel r (v # vs) b w =
     (case inject_entry fuel r v b w of
        (Normal b', w') \<Rightarrow> inject_loop fuel r vs b' w'
      | (Thrown e, w') \<Rightarrow> (Thrown e, w'))"

text \<open>
  One render of the injected component under the root \<open>r\<close>; \<^verbatim>\<open>_atoms || []\<close> is the
  empty list when the caller gave none. \<^verbatim>\<open>inject(atoms, Component)\<close> renders \<^verbatim>\<open>Injection\<close>
  with that array and hands the result to \<^verbatim>\<open>Component\<close>.
\<close>

definition entries_of :: "entry list option \<Rightarrow> entry list" where
  "entries_of es = (case es of None \<Rightarrow> [] | Some vs \<Rightarrow> vs)"

definition Injection :: "nat \<Rightarrow> nat \<Rightarrow> entry list option \<Rightarrow> world \<Rightarrow> injection outcome \<times> world" where
  "Injection fuel r es w =
     inject_loop fuel r (entries_of es)
       \<lparr>dollar = Map.empty, setters = Map.empty, updated = Map.empty,
        updated_proto = VObjectPrototype\<rparr> w"

definition inject :: "entry list option \<Rightarrow> nat \<Rightarrow> nat \<Rightarrow> world \<Rightarrow> injection outcome \<times> world" where
  "inject es fuel r w = Injection fuel r es w"

subsection \<open>get, set and fn (lines 72 to 81)\<close>

text \<open>
  The closures that the component receives work on the render's \<^verbatim>\<open>$\<close>, \<^verbatim>\<open>setters\<close> and
  \<^verbatim>\<open>updated\<close> and on the state of the process. An action is a piece of code run in an event
  handler: it returns or throws, and leaves a state either way.
\<close>

type_synonym 'a action = "injection \<times> world \<Rightarrow> 'a outcome \<times> injection \<times> world"

definition ret :: "'a \<Rightarrow> 'a action" where
  "ret x s = (Normal x, s)"

definition seq :: "'a action \<Rightarrow> ('a \<Rightarrow> 'b action) \<Rightarrow> 'b action" where
  "seq m f s = (case m s of (Normal x, s') \<Rightarrow> f x s' | (Thrown e, s') \<Rightarrow> (Thrown e, s'))"

definition try_catch :: "'a action \<Rightarrow> (error \<Rightarrow> 'a action) \<Rightarrow> 'a action" where
  "try_catch m h s = (case m s of (Normal x, s') \<Rightarrow> (Normal x, s') | (Thrown e, s') \<Rightarrow> h e s')"

text \<open>
  \<^verbatim>\<open>updated[key]\<close>: the own property, or what the prototype of \<^verbatim>\<open>updated\<close> gives (for the
  accessor \<^verbatim>\<open>__proto__\<close>, that prototype itself).
\<close>

definition updated_get :: "injection \<Rightarrow> string \<Rightarrow> jsval" where
  "updated_get b k =
     (case updated b k of
        Some v \<Rightarrow> v
      | None \<Rightarrow>
          (case inherited (updated_proto b) k of
             Data v \<Rightarrow> v
           | ProtoAccessor \<Rightarrow> updated_proto b
           | Absent \<Rightarrow> VUndefined))"

text \<open>
  \<^verbatim>\<open>updated[key] = val\<close>: an own property is overwritten; a name that finds the accessor
  \<^verbatim>\<open>__proto__\<close> goes to its setter, which stores no property and replaces the prototype when
  the value is an object or \<^verbatim>\<open>null\<close>; any other name becomes an own property.
\<close>

definition updated_set :: "string \<Rightarrow> jsval \<Rightarrow> injection \<Rightarrow> injection" where
  "updated_set k x b =
     (case updated b k of
        Some y \<Rightarrow> b\<lparr>updated := (updated b)(k \<mapsto> x)\<rparr>
      | None \<Rightarrow>
          (case inherited (updated_proto b) k of
             ProtoAccessor \<Rightarrow> (if is_object x \<or> x = VNull then b\<lparr>updated_proto := x\<rparr> else b)
           | _ \<Rightarrow> b\<lparr>updated := (updated b)(k \<mapsto> x)\<rparr>))"

text \<open>\<^verbatim>\<open>typeof updated[key] !== "undefined" ? updated[key] : $[key]\<close>\<close>

definition get :: "string \<Rightarrow> injection \<Rightarrow> jsval" where
  "get key b =
     (if updated_get b key \<noteq> VUndefined then updated_get b key
      else obj_get (dollar b) key)"

definition get_act :: "string \<Rightarrow> jsval action" where
  "get_act key s = (Normal (get key (fst s)), s)"

text \<open>
  \<^verbatim>\<open>setters[key](val)\<close> when \<^verbatim>\<open>setters\<close> has no own property \<^verbatim>\<open>key\<close>: the call goes to what
  \<^verbatim>\<open>Object.prototype\<close> has under that name, with \<^verbatim>\<open>setters\<close> as \<^verbatim>\<open>this\<close>. Nothing there, or
  the object that \<^verbatim>\<open>__proto__\<close> reads, is not callable: a \<^verbatim>\<open>TypeError\<close>.
  \<^verbatim>\<open>__defineGetter__\<close> and \<^verbatim>\<open>__defineSetter__\<close> throw a \<^verbatim>\<open>TypeError\<close> for want of a second
  argument. \<^verbatim>\<open>toLocaleString\<close> calls \<^verbatim>\<open>this.toString()\<close>, which is the setter of a state
  named \<^verbatim>\<open>toString\<close> if there is one. The other functions return and change nothing.
\<close>

definition call_inherited :: "string \<Rightarrow> injection \<Rightarrow> world \<Rightarrow> unit outcome \<times> world" where
  "call_inherited key b w =
     (if key \<in> set object_prototype_functions then
        (if key = ''__defineGetter__'' \<or> key = ''__defineSetter__'' then (Thrown TypeError, w)
         else if key = ''toLocaleString'' then
           (case setters b ''toString'' of
              Some f \<Rightarrow> call_setter f VUndefined w
            | None \<Rightarrow> (Normal (), w))
         else (Normal (), w))
      else (Thrown TypeError, w))"

text \<open>
  \<^verbatim>\<open>updated[key] = val; setters[key](val)\<close>: the assignment to the shadow map comes first,
  then the call of the own setter, or of what is inherited under that name.
\<close>

definition set_val :: "jsval \<Rightarrow> string \<Rightarrow> unit action" where
  "set_val x key s =
     (case s of
        (b, w) \<Rightarrow>
          (let b' = updated_set key x b in
           case (if key = ''__proto__'' then None else setters b' key) of
             Some f \<Rightarrow> (case call_setter f x w of (res, w') \<Rightarrow> (res, b', w'))
           | None \<Rightarrow> (case call_inherited key b' w of (res, w') \<Rightarrow> (res, b', w'))))"

text \<open>
  The bag that \<^verbatim>\<open>fn\<close> hands to the wrapped function is
  \<^verbatim>\<open>{ args, val: args[0] || {}, get, set, refs, fn }\<close>. Its fields \<^verbatim>\<open>get\<close>, \<^verbatim>\<open>set\<close>, \<^verbatim>\<open>refs\<close>
  and \<^verbatim>\<open>fn\<close> are the closures of the render, the same at every call: a wrapped function of
  the model uses \<open>get_act\<close>, \<open>set_val\<close>, \<open>fn\<close> and the state directly, and the record holds
  what changes from call to call.
\<close>

record bag =
  args :: "jsval list"
  val :: jsval

definition arg0 :: "jsval list \<Rightarrow> jsval" where
  "arg0 xs = (case xs of [] \<Rightarrow> VUndefined | x # _ \<Rightarrow> x)"

definition call_bag :: "jsval list \<Rightarrow> bag" where
  "call_bag xs = \<lparr>args = xs, val = (if truthy (arg0 xs) then arg0 xs else VObj [])\<rparr>"

definition fn :: "(bag \<Rightarrow> 'a action) \<Rightarrow> jsval list \<Rightarrow> 'a action" where
  "fn func xs = func (call_bag xs)"

section \<open>Renders, writes and the examples of the specification\<close>

text \<open>The key under which an entry is injected: the name itself, or the object's \<^verbatim>\<open>key\<close>.\<close>

definition entry_key :: "world \<Rightarrow> entry \<Rightarrow> string" where
  "entry_key w v = (case v of Key k \<Rightarrow> k | Spec a \<Rightarrow> spec_key (heap w a))"

text \<open>
  \<open>n\<close> renders of one injected component, one after the other, each of which returns;
  a render that throws ends the sequence with its error.
\<close>

fun renders :: "nat \<Rightarrow> nat \<Rightarrow> nat \<Rightarrow> entry list option \<Rightarrow> world \<Rightarrow> world outcome" where
  "renders 0 fuel r es w = Normal w"
| "renders (Suc n) fuel r es w =
     (case Injection fuel r es w of
        (Normal b, w') \<Rightarrow> renders n fuel r es w'
      | (Thrown e, w') \<Rightarrow> Thrown e)"

text \<open>
  A sequence of writes to one key through the \<^verbatim>\<open>set\<close> of one render, in order; a write
  that throws is caught and the next one follows.
\<close>

fun writes :: "jsval list \<Rightarrow> string \<Rightarrow> injection \<times> world \<Rightarrow> injection \<times> world" where
  "writes [] k s = s"
| "writes (x # xs) k s = writes xs k (snd (set_val x k s))"

text \<open>A process in which nothing has happened yet, and a spec object with a key only.\<close>

definition key_only :: "string \<Rightarrow> spec" where
  "key_only k = \<lparr>spec_key = k, spec_default = None, spec_get = None, spec_id = None\<rparr>"

definition w0 :: world where
  "w0 = \<lparr>atoms = Map.empty, refs = Map.empty, heap = (\<lambda>a. key_only []),
         nodes = Map.empty, stores = (\<lambda>r. Map.empty), roots = 0\<rparr>"

text \<open>
  The chained functions of the specification's example. The arithmetic is JavaScript's on
  numbers, the only values the examples apply it to (elsewhere the result is left
  \<^verbatim>\<open>undefined\<close>): \<^verbatim>\<open>A = ({get, set, fn}) => { set(get("counter") + 2, "counter"); fn(B)() }\<close> and
  \<^verbatim>\<open>B = ({get, set}) => set(get("counter") * 3, "counter")\<close>.
\<close>

fun plus_num :: "jsval \<Rightarrow> int \<Rightarrow> jsval" where
  "plus_num (VNum m) n = VNum (m + n)"
| "plus_num v n = VUndefined"

fun times_num :: "jsval \<Rightarrow> int \<Rightarrow> jsval" where
  "times_num (VNum m) n = VNum (m * n)"
| "times_num v n = VUndefined"

definition example_B :: "bag \<Rightarrow> unit action" where
  "example_B bg = seq (get_act ''counter'') (\<lambda>c. set_val (times_num c 3) ''counter'')"

definition example_A :: "bag \<Rightarrow> unit action" where
  "example_A bg =
     seq (get_act ''counter'') (\<lambda>c.
     seq (set_val (plus_num c 2) ''counter'') (\<lambda>u.
     fn example_B []))"

text \<open>The same with the body of \<^verbatim>\<open>B\<close> written out in \<^verbatim>\<open>A\<close>.\<close>

definition example_inlined :: "bag \<Rightarrow> unit action" where
  "example_inlined bg =
     seq (get_act ''counter'') (\<lambda>c.
     seq (set_val (plus_num c 2) ''counter'') (\<lambda>u.
     seq (get_act ''counter'') (\<lambda>c'. set_val (times_num c' 3) ''counter'')))"

text \<open>
  The README's chained functions, in which the inner function uses its \<^verbatim>\<open>val\<close>:
  \<^verbatim>\<open>multiply = ({set, get, val}) => set(get("state_1") * val, "state_1")\<close> and
  \<^verbatim>\<open>add_and_multiply = ({set, get, val, fn}) => { set(get("state_1") + val, "state_1"); fn(multiply)(3) }\<close>,
  and the latter with the body of the former written out for a first argument \<open>x\<close>.
\<close>

fun plus_vals :: "jsval \<Rightarrow> jsval \<Rightarrow> jsval" where
  "plus_vals (VNum m) (VNum n) = VNum (m + n)"
| "plus_vals a b = VUndefined"

fun times_vals :: "jsval \<Rightarrow> jsval \<Rightarrow> jsval" where
  "times_vals (VNum m) (VNum n) = VNum (m * n)"
| "times_vals a b = VUndefined"

definition multiply :: "bag \<Rightarrow> unit action" where
  "multiply bg = seq (get_act ''state_1'') (\<lambda>c. set_val (times_vals c (val bg)) ''state_1'')"

definition add_and_multiply :: "bag \<Rightarrow> unit action" where
  "add_and_multiply bg =
     seq (get_act ''state_1'') (\<lambda>c.
     seq (set_val (plus_vals c (val bg)) ''state_1'') (\<lambda>u.
     fn multiply [VNum 3]))"

definition add_and_multiply_inlined :: "jsval \<Rightarrow> unit action" where
  "add_and_multiply_inlined x =
     seq (get_act ''state_1'') (\<lambda>c.
     seq (set_val (plus_vals c x) ''state_1'') (\<lambda>u.
     seq (get_act ''state_1'') (\<lambda>c'. set_val (times_vals c' (VNum 3)) ''state_1'')))"

text \<open>
  The README's pair of states, \<^verbatim>\<open>{key: "atom", default: 2}\<close> and
  \<^verbatim>\<open>{key: "selector", get: ({get}) => get("atom") + 1}\<close>, as the caller's objects at the
  addresses 0 and 1, under \<^verbatim>\<open><Roid defaults={{atom: 1}}>\<close>.
\<close>

definition example_derive :: "(jsval \<Rightarrow> jsval option) \<Rightarrow> jsval option" where
  "example_derive g = (case g (VStr ''atom'') of None \<Rightarrow> None | Some x \<Rightarrow> Some (plus_num x 1))"

definition example_heap :: "nat \<Rightarrow> spec" where
  "example_heap =
     (\<lambda>a. key_only [])
       (0 := (key_only ''atom'')\<lparr>spec_default := Some (VNum 2)\<rparr>,
        1 := (key_only ''selector'')\<lparr>spec_get := Some (Derive example_derive)\<rparr>)"

definition example_world :: world where
  "example_world = snd (Roid (Some [(''atom'', VNum 1)]) True None (w0\<lparr>heap := example_heap\<rparr>))"

text \<open>
  What a render of \<^verbatim>\<open>inject(["atom"], ...)\<close> binds under that provider; two sibling
  providers that both name a key \<^verbatim>\<open>k\<close>, with the defaults 1 and 2, and what a render of
  \<^verbatim>\<open>inject(["k"], ...)\<close> binds under the root \<open>r\<close> of either.
\<close>

definition example_binding :: injection where
  "example_binding =
     \<lparr>dollar = [''atom'' \<mapsto> VNum 1], setters = [''atom'' \<mapsto> SetRecoil 0 (VCell ''atom'')],
      updated = Map.empty, updated_proto = VObjectPrototype\<rparr>"

definition siblings_binding :: "nat \<Rightarrow> injection" where
  "siblings_binding r =
     \<lparr>dollar = [''k'' \<mapsto> VNum 1], setters = [''k'' \<mapsto> SetRecoil r (VCell ''k'')],
      updated = Map.empty, updated_proto = VObjectPrototype\<rparr>"

definition siblings_world :: world where
  "siblings_world =
     snd (Roid (Some [(''k'', VNum 2)]) True None (snd (Roid (Some [(''k'', VNum 1)]) True None w0)))"

section \<open>Lemmas\<close>

lemmas run_defs =
  Injection_def entries_of_def inject_entry_def resolve_def Let_def register_atom_def atom_def
  selector_def useRecoilState_def Roid_def RecoilRoot_def w0_def key_only_def obj_get_def
  object_prototype_member_def object_prototype_functions_def isNil_def example_heap_def
  example_world_def siblings_world_def

subsection \<open>Objects\<close>

lemma obj_get_proto [simp]: "obj_get m ''__proto__'' = VObjectPrototype"
  by (simp add: obj_get_def object_prototype_member_def)

lemma obj_get_Some: "k \<noteq> ''__proto__'' \<Longrightarrow> m k = Some v \<Longrightarrow> obj_get m k = v"
  by (simp add: obj_get_def)

lemma obj_get_None:
  "k \<notin> set object_prototype_names \<Longrightarrow> m k = None \<Longrightarrow> obj_get m k = VUndefined"
  by (simp add: obj_get_def object_prototype_member_def object_prototype_names_def)



lemma obj_get_cong: "m k = m' k \<Longrightarrow> obj_get m k = obj_get m' k"
  by (simp add: obj_get_def)

lemma obj_get_upd:
  "obj_get (m(k \<mapsto> v)) k' = (if k' = k \<and> k \<noteq> ''__proto__'' then v else obj_get m k')"
  by (simp add: obj_get_def)

lemma isNil_simps [simp]:
  "isNil VUndefined" "isNil VNull" "\<not> isNil (VCell k)" "\<not> isNil (VNum n)" "\<not> isNil (VStr s)"
  "\<not> isNil (VFun f)" "\<not> isNil VObjectPrototype"
  by (simp_all add: isNil_def)

lemma isNil_obj_get_not_proto: "isNil (obj_get m k) \<Longrightarrow> k \<noteq> ''__proto__''"
  by auto

lemma isNil_obj_get_None:
  "isNil (obj_get m k) \<Longrightarrow> m k = None \<Longrightarrow> k \<notin> set object_prototype_names"
  by (auto simp: obj_get_def object_prototype_member_def object_prototype_names_def
      split: if_splits)

lemma truthy_iff: "truthy v \<longleftrightarrow> v \<notin> set [VUndefined, VNull, VBool False, VNum 0, VStr []]"
  by (cases v) auto

subsection \<open>The registry only grows\<close>

lemma register_atom_atoms:
  "\<not> isNil (obj_get (atoms w) k) \<Longrightarrow> atoms (register_atom k' d w) k = atoms w k"
  by (auto simp: register_atom_def atom_def)

lemma register_atom_nodes:
  "\<not> isNil (obj_get (atoms w) k) \<Longrightarrow> nodes (register_atom k' d w) k = nodes w k"
  by (auto simp: register_atom_def atom_def)

lemma register_atom_frame [simp]:
  "heap (register_atom k d w) = heap w"
  "stores (register_atom k d w) = stores w"
  "roots (register_atom k d w) = roots w"
  "refs (register_atom k d w) = refs w"
  by (simp_all add: register_atom_def atom_def)

lemma register_atom_registered:
  "\<not> isNil (obj_get (atoms w) k) \<Longrightarrow> \<not> isNil (obj_get (atoms (register_atom k' d w)) k)"
  using obj_get_cong [of "atoms (register_atom k' d w)" k "atoms w"]
  by (simp add: register_atom_atoms)

lemma Path_preserves:
  "\<not> isNil (obj_get (atoms w) k) \<Longrightarrow>
   atoms (Path ds w) k = atoms w k \<and> nodes (Path ds w) k = nodes w k"
proof (induction ds arbitrary: w)
  case Nil
  then show ?case by simp
next
  case (Cons p ds)
  obtain k' d where p: "p = (k', d)" by (cases p)
  from Cons.prems have r: "\<not> isNil (obj_get (atoms (register_atom k' d w)) k)"
    by (rule register_atom_registered)
  from Cons.IH [OF r] Cons.prems show ?case
    by (simp add: p register_atom_atoms register_atom_nodes)
qed

lemma RecoilRoot_frame [simp]:
  "atoms (snd (RecoilRoot ov p w)) = atoms w"
  "nodes (snd (RecoilRoot ov p w)) = nodes w"
  "heap (snd (RecoilRoot ov p w)) = heap w"
  by (simp_all add: RecoilRoot_def split: bool.splits option.splits)

lemma Roid_preserves:
  assumes reg: "\<not> isNil (obj_get (atoms w) k)"
  shows "atoms (snd (Roid ds ov p w)) k = atoms w k \<and> nodes (snd (Roid ds ov p w)) k = nodes w k"
proof -
  obtain r w1 where rr: "RecoilRoot ov p w = (r, w1)" by (cases "RecoilRoot ov p w")
  have w1: "atoms w1 = atoms w" "nodes w1 = nodes w"
    using RecoilRoot_frame [of ov p w] by (simp_all add: rr)
  with reg have "\<not> isNil (obj_get (atoms w1) k)" by simp
  from Path_preserves [OF this] w1 show ?thesis by (simp add: Roid_def rr)
qed

lemma resolve_atoms:
  "\<not> isNil (obj_get (atoms w) k) \<Longrightarrow> atoms (snd (snd (resolve v w))) k = atoms w k"
  by (auto simp: resolve_def Let_def register_atom_atoms selector_def
      split: entry.splits option.splits)

lemma resolve_nodes:
  "\<not> isNil (obj_get (atoms w) k) \<Longrightarrow> nodes (snd (snd (resolve v w))) k = nodes w k"
  by (auto simp: resolve_def Let_def register_atom_nodes selector_def
      split: entry.splits option.splits)

lemma inject_entry_world: "snd (inject_entry fuel r v b w) = snd (snd (resolve v w))"
  by (simp add: inject_entry_def split: prod.splits option.splits)

lemma inject_loop_preserves:
  "\<not> isNil (obj_get (atoms w) k) \<Longrightarrow>
   atoms (snd (inject_loop fuel r vs b w)) k = atoms w k \<and>
   nodes (snd (inject_loop fuel r vs b w)) k = nodes w k"
proof (induction vs arbitrary: b w)
  case Nil
  then show ?case by simp
next
  case (Cons v vs)
  let ?w1 = "snd (inject_entry fuel r v b w)"
  have a: "atoms ?w1 k = atoms w k" and n: "nodes ?w1 k = nodes w k"
    using Cons.prems by (simp_all add: inject_entry_world resolve_atoms resolve_nodes)
  from a Cons.prems have reg: "\<not> isNil (obj_get (atoms ?w1) k)"
    using obj_get_cong [of "atoms ?w1" k "atoms w"] by simp
  show ?case
  proof (cases "inject_entry fuel r v b w")
    case (Pair res w1)
    with a n reg have a1: "atoms w1 k = atoms w k" and n1: "nodes w1 k = nodes w k"
      and reg1: "\<not> isNil (obj_get (atoms w1) k)" by simp_all
    show ?thesis
    proof (cases res)
      case (Normal b')
      with Pair Cons.IH [OF reg1, of b'] a1 n1 show ?thesis by simp
    next
      case (Thrown e)
      with Pair a1 n1 show ?thesis by simp
    qed
  qed
qed

lemma Injection_preserves:
  "\<not> isNil (obj_get (atoms w) k) \<Longrightarrow>
   atoms (snd (Injection fuel r es w)) k = atoms w k \<and>
   nodes (snd (Injection fuel r es w)) k = nodes w k"
  unfolding Injection_def by (rule inject_loop_preserves)

lemma Roid_fresh:
  "isNil (obj_get (atoms w) k) \<Longrightarrow> Roid (Some [(k, d1)]) True p w = (r, w1) \<Longrightarrow>
   r = roots w \<and> atoms w1 k = Some (VCell k) \<and> nodes w1 k = Some (Atom d1) \<and>
   stores w1 r = Map.empty \<and> heap w1 = heap w"
  by (auto simp: Roid_def RecoilRoot_def register_atom_def atom_def)

lemma resolve_leaf_registered:
  "k \<noteq> ''__proto__'' \<Longrightarrow> atoms w k = Some c \<Longrightarrow> \<not> isNil c \<Longrightarrow> spec_key (heap w a) = k \<Longrightarrow>
   spec_get (heap w a) = None \<Longrightarrow> resolve (Spec a) w = (k, c, w)"
  by (simp add: resolve_def Let_def register_atom_def obj_get_Some)

text \<open>
  The leaf branch on a key that has no cell yet: the cell's default is \<^verbatim>\<open>null\<close>, whatever
  the entry's \<^verbatim>\<open>default\<close> is.
\<close>

lemma resolve_leaf_fresh:
  "isNil (obj_get (atoms w) (spec_key (heap w a))) \<Longrightarrow> spec_get (heap w a) = None \<Longrightarrow>
   nodes (snd (snd (resolve (Spec a) w))) (spec_key (heap w a)) = Some (Atom VNull)"
  by (simp add: resolve_def Let_def register_atom_def atom_def)

lemma provider_default_stays:
  assumes "isNil (obj_get (atoms w) k)" "spec_key (heap w a) = k" "spec_get (heap w a) = None"
  shows "case Roid (Some [(k, d1)]) True p w of
           (r, w1) \<Rightarrow>
             (case Injection (Suc n) r (Some [Spec a]) w1 of
                (Normal b, w2) \<Rightarrow> obj_get (dollar b) k = d1
              | (Thrown e, w2) \<Rightarrow> False)"
proof -
  obtain r w1 where R: "Roid (Some [(k, d1)]) True p w = (r, w1)"
    by (cases "Roid (Some [(k, d1)]) True p w")
  from Roid_fresh [OF assms(1) R]
  have f: "atoms w1 k = Some (VCell k)" "nodes w1 k = Some (Atom d1)" "stores w1 r = Map.empty"
    "heap w1 = heap w" by auto
  from assms(1) have np: "k \<noteq> ''__proto__''" by (rule isNil_obj_get_not_proto)
  have res: "resolve (Spec a) w1 = (k, VCell k, w1)"
    using f assms np by (intro resolve_leaf_registered) simp_all
  show ?thesis
    by (simp add: R Injection_def entries_of_def inject_entry_def res useRecoilState_def f
        obj_get_upd np)
qed

subsection \<open>get and set\<close>

lemma inherited_accessor: "inherited p k = ProtoAccessor \<Longrightarrow> k = ''__proto__''"
  by (cases p) (auto simp: object_prototype_member_def split: option.splits if_splits)

lemma updated_set_plain:
  "k \<noteq> ''__proto__'' \<Longrightarrow> updated_set k x b = b\<lparr>updated := (updated b)(k \<mapsto> x)\<rparr>"
  by (auto simp: updated_set_def split: option.splits found.splits dest: inherited_accessor)

lemma updated_set_frame [simp]:
  "dollar (updated_set k x b) = dollar b"
  "setters (updated_set k x b) = setters b"
  by (simp_all add: updated_set_def split: option.splits found.splits)

lemma updated_get_own: "updated b k = Some x \<Longrightarrow> updated_get b k = x"
  by (simp add: updated_get_def)

lemma get_after_set:
  "k \<noteq> ''__proto__'' \<Longrightarrow>
   get k (fst (snd (set_val v k (b, w)))) = (if v \<noteq> VUndefined then v else obj_get (dollar b) k)"
  by (simp add: set_val_def get_def Let_def updated_set_plain updated_get_own
      split: option.splits prod.splits)


text \<open>
  \<^verbatim>\<open>set\<close> under a name for which \<^verbatim>\<open>setters\<close> has no own property: what is inherited under
  that name decides whether the call returns.
\<close>

lemma set_val_no_setter:
  "k \<noteq> ''__proto__'' \<Longrightarrow> setters b k = None \<Longrightarrow>
   set_val v k (b, w) =
     (case call_inherited k (b\<lparr>updated := (updated b)(k \<mapsto> v)\<rparr>) w of
        (res, w') \<Rightarrow> (res, b\<lparr>updated := (updated b)(k \<mapsto> v)\<rparr>, w'))"
  by (simp add: set_val_def Let_def updated_set_plain)

lemma call_inherited_other:
  "k \<notin> set object_prototype_names \<Longrightarrow> call_inherited k b w = (Thrown TypeError, w)"
  by (simp add: call_inherited_def object_prototype_names_def)

subsection \<open>The wrapper around a derivation\<close>

lemma wrapped_get_cases:
  "wrapped_get reg g =
     (\<lambda>x. case x of
            VStr s \<Rightarrow> (if isNil (obj_get reg s) then g x else g (obj_get reg s))
          | _ \<Rightarrow> g x)"
proof
  fix x
  show "wrapped_get reg g x =
     (case x of VStr s \<Rightarrow> (if isNil (obj_get reg s) then g x else g (obj_get reg s)) | _ \<Rightarrow> g x)"
    by (cases x) (simp_all add: wrapped_get_def)
qed


subsection \<open>What a render binds\<close>

lemma resolve_key: "fst (resolve v w) = entry_key w v"
  by (simp add: resolve_def entry_key_def Let_def split: entry.splits option.splits)

lemma resolve_spec_key:
  "spec_key (heap (snd (snd (resolve v w))) a) = spec_key (heap w a)"
  by (simp add: resolve_def Let_def selector_def split: entry.splits option.splits)

lemma entry_key_resolve: "entry_key (snd (snd (resolve v w))) v' = entry_key w v'"
  by (simp add: entry_key_def resolve_spec_key split: entry.splits)

lemma inject_entry_Normal:
  "inject_entry fuel r v b w = (Normal b', w') \<Longrightarrow>
   w' = snd (snd (resolve v w)) \<and>
   (\<exists>x s. b' = b\<lparr>dollar := (dollar b)(entry_key w v \<mapsto> x),
                  setters := (setters b)(entry_key w v \<mapsto> s)\<rparr>)"
  using resolve_key [of v w]
  by (auto simp: inject_entry_def split: prod.splits option.splits)

lemma inject_loop_other_key:
  "inject_loop fuel r vs b w = (Normal b', w') \<Longrightarrow> k \<notin> entry_key w ` set vs \<Longrightarrow>
   dollar b' k = dollar b k \<and> setters b' k = setters b k \<and> updated b' = updated b"
proof (induction vs arbitrary: b w)
  case Nil
  then show ?case by simp
next
  case (Cons v vs)
  from Cons.prems(1) obtain b1 w1 where
    e: "inject_entry fuel r v b w = (Normal b1, w1)" and
    l: "inject_loop fuel r vs b1 w1 = (Normal b', w')"
    by (auto split: prod.splits outcome.splits)
  from inject_entry_Normal [OF e] obtain x s where
    w1: "w1 = snd (snd (resolve v w))" and
    b1: "b1 = b\<lparr>dollar := (dollar b)(entry_key w v \<mapsto> x),
                setters := (setters b)(entry_key w v \<mapsto> s)\<rparr>"
    by blast
  from Cons.prems(2) have "k \<notin> entry_key w1 ` set vs" and ne: "k \<noteq> entry_key w v"
    by (auto simp: w1 entry_key_resolve)
  from Cons.IH [OF l this(1)] ne show ?case by (simp add: b1)
qed

subsection \<open>The caller's objects across renders\<close>

lemma resolve_heap_get:
  "spec_get (heap w a) = Some d \<Longrightarrow>
   spec_get (heap (snd (snd (resolve v w))) a) = Some (if v = Spec a then Wrapper d else d)"
  by (auto simp: resolve_def Let_def selector_def split: entry.splits option.splits)

lemma inject_loop_heap_get:
  "inject_loop fuel r vs b w = (Normal b', w') \<Longrightarrow> spec_get (heap w a) = Some d \<Longrightarrow>
   spec_get (heap w' a) = Some ((Wrapper ^^ count_list vs (Spec a)) d)"
proof (induction vs arbitrary: b w d)
  case Nil
  then show ?case by simp
next
  case (Cons v vs)
  from Cons.prems(1) obtain b1 w1 where
    e: "inject_entry fuel r v b w = (Normal b1, w1)" and
    l: "inject_loop fuel r vs b1 w1 = (Normal b', w')"
    by (auto split: prod.splits outcome.splits)
  from inject_entry_Normal [OF e] have w1: "w1 = snd (snd (resolve v w))" by blast
  from resolve_heap_get [OF Cons.prems(2), of v]
  have h: "spec_get (heap w1 a) = Some (if v = Spec a then Wrapper d else d)" by (simp add: w1)
  from Cons.IH [OF l h] show ?case by (simp add: funpow_swap1)
qed

lemma renders_heap_get:
  "renders n fuel r es w = Normal w' \<Longrightarrow> spec_get (heap w a) = Some d \<Longrightarrow>
   spec_get (heap w' a) = Some ((Wrapper ^^ (n * count_list (entries_of es) (Spec a))) d)"
proof (induction n arbitrary: w d)
  case 0
  then show ?case by simp
next
  case (Suc n)
  from Suc.prems(1) obtain b1 w1 where
    i: "Injection fuel r es w = (Normal b1, w1)" and
    l: "renders n fuel r es w1 = Normal w'"
    by (auto split: prod.splits outcome.splits)
  from inject_loop_heap_get [OF i [unfolded Injection_def] Suc.prems(2)]
  have h: "spec_get (heap w1 a) = Some ((Wrapper ^^ count_list (entries_of es) (Spec a)) d)" .
  have "Suc n * count_list (entries_of es) (Spec a) =
        n * count_list (entries_of es) (Spec a) + count_list (entries_of es) (Spec a)" by simp
  with Suc.IH [OF l h] show ?case by (simp only: funpow_add o_apply)
qed

subsection \<open>A render reads the store of its own root only\<close>

lemma register_atom_stores:
  "register_atom k d (w\<lparr>stores := S\<rparr>) = (register_atom k d w)\<lparr>stores := S\<rparr>"
  by (simp add: register_atom_def atom_def)

lemma resolve_stores:
  "resolve v (w\<lparr>stores := S\<rparr>) =
     (case resolve v w of (key, c, w') \<Rightarrow> (key, c, w'\<lparr>stores := S\<rparr>))"
  by (simp add: resolve_def Let_def register_atom_stores selector_def
      split: entry.splits option.splits)

lemma resolve_stores_same: "stores (snd (snd (resolve v w))) = stores w"
  by (simp add: resolve_def Let_def selector_def split: entry.splits option.splits)

lemma inject_entry_stores:
  "S r = stores w r \<Longrightarrow>
   inject_entry fuel r v b (w\<lparr>stores := S\<rparr>) =
     (case inject_entry fuel r v b w of (res, w') \<Rightarrow> (res, w'\<lparr>stores := S\<rparr>))"
  using resolve_stores_same [of v w]
  by (cases "resolve v w")
     (auto simp: inject_entry_def resolve_stores useRecoilState_def split: option.splits)

lemma inject_loop_stores:
  "S r = stores w r \<Longrightarrow>
   inject_loop fuel r vs b (w\<lparr>stores := S\<rparr>) =
     (case inject_loop fuel r vs b w of (res, w') \<Rightarrow> (res, w'\<lparr>stores := S\<rparr>))"
proof (induction vs arbitrary: b w)
  case Nil
  then show ?case by simp
next
  case (Cons v vs)
  obtain res w1 where e: "inject_entry fuel r v b w = (res, w1)"
    by (cases "inject_entry fuel r v b w")
  have "w1 = snd (snd (resolve v w))" using inject_entry_world [of fuel r v b w] e by simp
  then have "stores w1 = stores w" by (simp add: resolve_stores_same)
  with Cons.prems have S: "S r = stores w1 r" by simp
  have step: "inject_entry fuel r v b (w\<lparr>stores := S\<rparr>) = (res, w1\<lparr>stores := S\<rparr>)"
    using inject_entry_stores [where S = S and r = r and w = w and fuel = fuel and v = v and b = b]
      Cons.prems e by simp
  show ?case
  proof (cases res)
    case (Normal b')
    with step e Cons.IH [where w = w1 and b = b', OF S] show ?thesis by simp
  next
    case (Thrown err)
    with step e show ?thesis by simp
  qed
qed

lemma Injection_stores:
  "S r = stores w r \<Longrightarrow>
   fst (Injection fuel r es (w\<lparr>stores := S\<rparr>)) = fst (Injection fuel r es w)"
  by (simp add: Injection_def inject_loop_stores split: prod.splits)

subsection \<open>The setters of a render write the store of its root only\<close>

lemma inject_entry_setters:
  "inject_entry fuel r v b w = (Normal b1, w1) \<Longrightarrow>
   \<forall>k s. setters b k = Some s \<longrightarrow> (\<exists>c. s = SetRecoil r c) \<Longrightarrow>
   \<forall>k s. setters b1 k = Some s \<longrightarrow> (\<exists>c. s = SetRecoil r c)"
  by (auto simp: inject_entry_def useRecoilState_def split: prod.splits option.splits if_splits)

lemma inject_loop_setters:
  "inject_loop fuel r vs b w = (Normal b', w') \<Longrightarrow>
   \<forall>k s. setters b k = Some s \<longrightarrow> (\<exists>c. s = SetRecoil r c) \<Longrightarrow>
   \<forall>k s. setters b' k = Some s \<longrightarrow> (\<exists>c. s = SetRecoil r c)"
proof (induction vs arbitrary: b w)
  case Nil
  then show ?case by simp
next
  case (Cons v vs)
  from Cons.prems(1) obtain b1 w1 where
    e: "inject_entry fuel r v b w = (Normal b1, w1)" and
    l: "inject_loop fuel r vs b1 w1 = (Normal b', w')"
    by (auto split: prod.splits outcome.splits)
  from inject_entry_setters [OF e Cons.prems(2)]
  have "\<forall>k s. setters b1 k = Some s \<longrightarrow> (\<exists>c. s = SetRecoil r c)" .
  from Cons.IH [OF l this] show ?case .
qed

lemma call_setter_stores:
  "\<exists>S. snd (call_setter (SetRecoil r c) x w) = w\<lparr>stores := S\<rparr> \<and>
       (\<forall>r'. r' \<noteq> r \<longrightarrow> S r' = stores w r')"
proof (cases c)
  case (VCell k)
  show ?thesis
  proof (cases "nodes w k")
    case None
    then show ?thesis using VCell by (auto intro: exI [of _ "stores w"])
  next
    case (Some nd)
    then show ?thesis using VCell
      by (cases nd)
         (auto intro: exI [of _ "stores w"] exI [of _ "(stores w)(r := (stores w r)(k \<mapsto> x))"])
  qed
qed (auto intro: exI [of _ "stores w"])

lemma world_stores_same: "\<exists>S. w = w\<lparr>stores := S\<rparr> \<and> (\<forall>r'. r' \<noteq> r \<longrightarrow> S r' = stores w r')"
  by (auto intro: exI [of _ "stores w"])

lemma call_inherited_stores:
  assumes inv: "\<forall>k s. setters b k = Some s \<longrightarrow> (\<exists>c. s = SetRecoil r c)"
  shows "\<exists>S. snd (call_inherited k b w) = w\<lparr>stores := S\<rparr> \<and>
             (\<forall>r'. r' \<noteq> r \<longrightarrow> S r' = stores w r')"
proof (cases "k = ''toLocaleString'' \<and> setters b ''toString'' \<noteq> None")
  case True
  then obtain s where s: "setters b ''toString'' = Some s" by auto
  with inv obtain c where "s = SetRecoil r c" by blast
  with call_setter_stores [of r c VUndefined w] True s show ?thesis
    by (simp add: call_inherited_def object_prototype_functions_def)
next
  case False
  then have "snd (call_inherited k b w) = w"
    by (auto simp: call_inherited_def split: option.splits)
  with world_stores_same [of w r] show ?thesis by simp
qed

lemma set_val_stores:
  assumes inv: "\<forall>k s. setters b k = Some s \<longrightarrow> (\<exists>c. s = SetRecoil r c)"
  shows "\<exists>S. snd (snd (set_val x k (b, w))) = w\<lparr>stores := S\<rparr> \<and>
             (\<forall>r'. r' \<noteq> r \<longrightarrow> S r' = stores w r') \<and>
         setters (fst (snd (set_val x k (b, w)))) = setters b"
proof (cases "if k = ''__proto__'' then None else setters b k")
  case None
  have inv': "\<forall>k s. setters (updated_set k x b) k = Some s \<longrightarrow> (\<exists>c. s = SetRecoil r c)"
    using inv by simp
  from call_inherited_stores [of "updated_set k x b" r k w] inv
  obtain S where "snd (call_inherited k (updated_set k x b) w) = w\<lparr>stores := S\<rparr>"
    and "\<forall>r'. r' \<noteq> r \<longrightarrow> S r' = stores w r'" by auto
  with None show ?thesis
    by (auto simp: set_val_def Let_def split: prod.splits intro: exI [of _ S])
next
  case (Some s)
  then have sk: "setters b k = Some s" by (simp split: if_splits)
  with inv obtain c where s: "s = SetRecoil r c" by blast
  from call_setter_stores [of r c x w] obtain S where
    "snd (call_setter (SetRecoil r c) x w) = w\<lparr>stores := S\<rparr>"
    and "\<forall>r'. r' \<noteq> r \<longrightarrow> S r' = stores w r'" by blast
  with Some s sk show ?thesis
    by (auto simp: set_val_def Let_def split: prod.splits if_splits intro: exI [of _ S])
qed

lemma writes_stores:
  "\<forall>k s. setters b k = Some s \<longrightarrow> (\<exists>c. s = SetRecoil r c) \<Longrightarrow>
   \<exists>S. snd (writes xs k (b, w)) = w\<lparr>stores := S\<rparr> \<and> (\<forall>r'. r' \<noteq> r \<longrightarrow> S r' = stores w r')"
proof (induction xs arbitrary: b w)
  case Nil
  show ?case by (auto intro: exI [of _ "stores w"])
next
  case (Cons x xs)
  obtain res b1 w1 where sv: "set_val x k (b, w) = (res, b1, w1)"
    by (cases "set_val x k (b, w)") auto
  from set_val_stores [OF Cons.prems, of x k w] sv
  obtain S1 where
    w1: "w1 = w\<lparr>stores := S1\<rparr>" and S1: "\<forall>r'. r' \<noteq> r \<longrightarrow> S1 r' = stores w r'" and
    b1: "setters b1 = setters b" by auto
  have "\<forall>k s. setters b1 k = Some s \<longrightarrow> (\<exists>c. s = SetRecoil r c)"
    using Cons.prems by (simp add: b1)
  from Cons.IH [OF this, of w1] obtain S where
    "snd (writes xs k (b1, w1)) = w1\<lparr>stores := S\<rparr>" and "\<forall>r'. r' \<noteq> r \<longrightarrow> S r' = stores w1 r'"
    by blast
  with w1 S1 show ?case by (auto simp: sv intro: exI [of _ S])
qed

lemma Roid_new_root:
  assumes "Roid ds True p w = (r, w')"
  shows "r = roots w \<and> roots w' = Suc (roots w)"
proof -
  have "roots (Path xs u) = roots u" for xs u
    by (induction xs arbitrary: u) auto
  with assms show ?thesis by (auto simp: Roid_def RecoilRoot_def)
qed

subsection \<open>The keys of a render\<close>






lemma register_atom_proto: "atoms (register_atom k d w) ''__proto__'' = atoms w ''__proto__''"
  by (auto simp: register_atom_def atom_def)

subsection \<open>A registered key is kept\<close>

lemma registered_key_is_kept:
  assumes a: "atoms w k = Some (VCell k)" and np: "k \<noteq> ''__proto__''"
  shows "atoms (snd (Roid ds ov p w)) k = Some (VCell k)"
    and "nodes (snd (Roid ds ov p w)) k = nodes w k"
    and "atoms (snd (Injection fuel r es w)) k = Some (VCell k)"
    and "nodes (snd (Injection fuel r es w)) k = nodes w k"
proof -
  from a np have reg: "\<not> isNil (obj_get (atoms w) k)" by (simp add: obj_get_Some)
  from Roid_preserves [OF reg, where ds = ds and ov = ov and p = p] a
  show "atoms (snd (Roid ds ov p w)) k = Some (VCell k)"
    and "nodes (snd (Roid ds ov p w)) k = nodes w k" by simp_all
  from Injection_preserves [OF reg, where fuel = fuel and r = r and es = es] a
  show "atoms (snd (Injection fuel r es w)) k = Some (VCell k)"
    and "nodes (snd (Injection fuel r es w)) k = nodes w k" by simp_all
qed

subsection \<open>The bag of a call\<close>

lemma fn_passes_bag:
  "fn f xs =
     f \<lparr>args = xs,
        val = (if arg0 xs \<in> set [VUndefined, VNull, VBool False, VNum 0, VStr []]
               then VObj [] else arg0 xs)\<rparr>"
  by (simp only: fn_def call_bag_def truthy_iff) simp

subsection \<open>The examples\<close>

lemma example_world_atom:
  "atoms example_world ''atom'' = Some (VCell ''atom'')"
  "nodes example_world ''atom'' = Some (Atom (VNum 1))"
  "heap example_world = example_heap"
  "atoms example_world ''toString'' = None"
  by (simp_all add: run_defs)

lemma example_render:
  "Injection (Suc 0) 0 (Some [Key ''atom'']) example_world = (Normal example_binding, example_world)"
  by (simp add: Injection_def entries_of_def inject_entry_def resolve_def Let_def register_atom_def
      useRecoilState_def example_world_atom obj_get_Some example_binding_def)
     (simp add: run_defs)

lemma siblings_facts:
  "Roid (Some [(''k'', VNum 1)]) True None w0 =
     (0, snd (Roid (Some [(''k'', VNum 1)]) True None w0))"
  "Roid (Some [(''k'', VNum 2)]) True None (snd (Roid (Some [(''k'', VNum 1)]) True None w0)) =
     (Suc 0, siblings_world)"
  "atoms siblings_world ''k'' = Some (VCell ''k'')"
  "nodes siblings_world ''k'' = Some (Atom (VNum 1))"
  "stores siblings_world 0 = Map.empty"
  "stores siblings_world (Suc 0) = Map.empty"
  by (simp_all add: run_defs)

lemma siblings_render:
  "Injection (Suc 0) r (Some [Key ''k'']) siblings_world = (Normal (siblings_binding r), siblings_world)"
  if "r = 0 \<or> r = Suc 0"
  using that
  by (auto simp: Injection_def entries_of_def inject_entry_def resolve_def Let_def register_atom_def
      useRecoilState_def siblings_facts obj_get_Some siblings_binding_def)

lemma example_renders:
  "case renders 3 2 0 (Some [Key ''atom'', Spec (Suc 0)]) example_world of
     Normal w' \<Rightarrow> True | Thrown e \<Rightarrow> False"
  by code_simp

section \<open>The claims\<close>

text \<open>
  C1 (the code departs from it). An entry \<^verbatim>\<open>{key, default: d}\<close> whose key has no cell yet
  is to give a leaf cell with initial value \<open>d\<close>, so that the first \<^verbatim>\<open>$[key]\<close> is \<open>d\<close>. The
  leaf branch hands the local \<^verbatim>\<open>_default\<close> to \<^verbatim>\<open>atom\<close> and never reads the entry's
  \<^verbatim>\<open>default\<close>: for the README's \<^verbatim>\<open>{key: "state_2", default: 2}\<close> in a fresh process, the
  cell is created with default \<^verbatim>\<open>null\<close> and the first \<^verbatim>\<open>$.state_2\<close> is \<^verbatim>\<open>null\<close>, not 2.
\<close>

theorem injection_default_is_dropped:
  "case Injection (Suc 0) 0 (Some [Spec 0])
          (w0\<lparr>heap := (heap w0)(0 := (key_only ''state_2'')\<lparr>spec_default := Some (VNum 2)\<rparr>)\<rparr>) of
     (Normal b, w) \<Rightarrow>
       obj_get (dollar b) ''state_2'' = VNull \<and> VNull \<noteq> VNum 2 \<and>
       (case nodes w ''state_2'' of Some (Atom d) \<Rightarrow> d = VNull | _ \<Rightarrow> False)
   | (Thrown e, w) \<Rightarrow> False"
  by code_simp




text \<open>
  C3 (the code departs from it). Once a key has a descriptor, a later registration leaves
  it as it is: that part holds (\<open>registered_key_is_kept\<close>). But a key that an injection
  registers with default 1 does not have the default 1: the default of an injected entry
  is dropped, as in C1. With \<^verbatim>\<open>inject([{key: "k", default: 1}], ...)\<close> rendered first and
  \<^verbatim>\<open>inject([{key: "k", default: 2}], ...)\<close> after it under one provider, the cell of \<open>k\<close> is
  the one the first render made, and both renders read \<^verbatim>\<open>null\<close>, not 1.
\<close>

theorem injected_default_is_not_kept:
  "case Roid None True None
          (w0\<lparr>heap := (heap w0)(0 := (key_only ''k'')\<lparr>spec_default := Some (VNum 1)\<rparr>,
                                 Suc 0 := (key_only ''k'')\<lparr>spec_default := Some (VNum 2)\<rparr>)\<rparr>) of
     (r, w1) \<Rightarrow>
       (case Injection (Suc 0) r (Some [Spec 0]) w1 of
          (Normal b1, w2) \<Rightarrow>
            (case Injection (Suc 0) r (Some [Spec (Suc 0)]) w2 of
               (Normal b2, w3) \<Rightarrow>
                 obj_get (dollar b1) ''k'' = VNull \<and> obj_get (dollar b2) ''k'' = VNull \<and>
                 VNull \<noteq> VNum 1 \<and>
                 atoms w2 ''k'' = Some (VCell ''k'') \<and> atoms w3 ''k'' = Some (VCell ''k'') \<and>
                 (case nodes w2 ''k'' of Some (Atom d) \<Rightarrow> d = VNull | _ \<Rightarrow> False) \<and>
                 (case nodes w3 ''k'' of Some (Atom d) \<Rightarrow> d = VNull | _ \<Rightarrow> False)
             | (Thrown e, w3) \<Rightarrow> False)
        | (Thrown e, w2) \<Rightarrow> False)"
  by code_simp

text \<open>
  C4. A wrapped function that runs some code, then calls \<^verbatim>\<open>fn(B)(...ys)\<close>, then runs more
  code, is the same action as that code with the body of \<open>B\<close> in the place of the call: the
  body with \<^verbatim>\<open>args\<close> bound to \<open>ys\<close> and \<^verbatim>\<open>val\<close> bound to the first of \<open>ys\<close> (to \<^verbatim>\<open>{}\<close> when that
  is falsy or missing), on the same shadow map and state. So the result and every cell
  are the same. For the specification's example (\<^verbatim>\<open>counter\<close> at 0, \<open>A\<close> adds 2 and calls
  \<open>B\<close>, \<open>B\<close> multiplies by 3), \<^verbatim>\<open>fn(A)()\<close> is the inlined code and leaves 6 in the shadow
  map and in the store while \<^verbatim>\<open>$.counter\<close> is still 0. For the README's
  \<^verbatim>\<open>add_and_multiply\<close>, whose inner function multiplies by its \<^verbatim>\<open>val\<close>,
  \<^verbatim>\<open>fn(add_and_multiply)(2)\<close> from 1 is the inlined code and leaves \<open>(1 + 2) * 3 = 9\<close>.
\<close>

theorem chained_fn_is_inlining:
  "fn (\<lambda>bg. seq (pre (val bg) (args bg))
             (\<lambda>x. seq (fn (\<lambda>bg'. body (val bg') (args bg')) (ys (val bg) (args bg) x))
                       (\<lambda>y. post (val bg) (args bg) x y))) xs =
     seq (pre (if truthy (arg0 xs) then arg0 xs else VObj []) xs)
       (\<lambda>x. seq (body (if truthy (arg0 (ys (if truthy (arg0 xs) then arg0 xs else VObj []) xs x))
                        then arg0 (ys (if truthy (arg0 xs) then arg0 xs else VObj []) xs x)
                        else VObj [])
                       (ys (if truthy (arg0 xs) then arg0 xs else VObj []) xs x))
                 (\<lambda>y. post (if truthy (arg0 xs) then arg0 xs else VObj []) xs x y)) \<and>
   fn example_A [] = example_inlined \<lparr>args = [], val = VObj []\<rparr> \<and>
   (case Roid (Some [(''counter'', VNum 0)]) True None w0 of
      (r, w1) \<Rightarrow>
        (case Injection (Suc 0) r (Some [Key ''counter'']) w1 of
           (Normal b, w2) \<Rightarrow>
             (case fn example_A [] (b, w2) of
                (res, b', w3) \<Rightarrow>
                  res = Normal () \<and> get ''counter'' b' = VNum 6 \<and>
                  obj_get (stores w3 r) ''counter'' = VNum 6 \<and>
                  obj_get (dollar b') ''counter'' = VNum 0)
         | (Thrown e, w2) \<Rightarrow> False)) \<and>
   fn add_and_multiply [VNum 2] = add_and_multiply_inlined (VNum 2) \<and>
   (case Roid (Some [(''state_1'', VNum 1)]) True None w0 of
      (r, w1) \<Rightarrow>
        (case Injection (Suc 0) r (Some [Key ''state_1'']) w1 of
           (Normal b, w2) \<Rightarrow>
             (case fn add_and_multiply [VNum 2] (b, w2) of
                (res, b', w3) \<Rightarrow>
                  res = Normal () \<and> get ''state_1'' b' = VNum 9 \<and>
                  obj_get (stores w3 r) ''state_1'' = VNum 9)
         | (Thrown e, w2) \<Rightarrow> False))"
proof (intro conjI)
  show "fn (\<lambda>bg. seq (pre (val bg) (args bg))
             (\<lambda>x. seq (fn (\<lambda>bg'. body (val bg') (args bg')) (ys (val bg) (args bg) x))
                       (\<lambda>y. post (val bg) (args bg) x y))) xs =
     seq (pre (if truthy (arg0 xs) then arg0 xs else VObj []) xs)
       (\<lambda>x. seq (body (if truthy (arg0 (ys (if truthy (arg0 xs) then arg0 xs else VObj []) xs x))
                        then arg0 (ys (if truthy (arg0 xs) then arg0 xs else VObj []) xs x)
                        else VObj [])
                       (ys (if truthy (arg0 xs) then arg0 xs else VObj []) xs x))
                 (\<lambda>y. post (if truthy (arg0 xs) then arg0 xs else VObj []) xs x y))"
    by (simp add: fn_def call_bag_def cong: if_cong)
  show "fn example_A [] = example_inlined \<lparr>args = [], val = VObj []\<rparr>"
    by (simp add: fn_def call_bag_def arg0_def example_A_def example_B_def example_inlined_def)
  show "fn add_and_multiply [VNum 2] = add_and_multiply_inlined (VNum 2)"
    by (simp add: fn_def call_bag_def arg0_def add_and_multiply_def multiply_def
        add_and_multiply_inlined_def)
  show "case Roid (Some [(''counter'', VNum 0)]) True None w0 of
      (r, w1) \<Rightarrow>
        (case Injection (Suc 0) r (Some [Key ''counter'']) w1 of
           (Normal b, w2) \<Rightarrow>
             (case fn example_A [] (b, w2) of
                (res, b', w3) \<Rightarrow>
                  res = Normal () \<and> get ''counter'' b' = VNum 6 \<and>
                  obj_get (stores w3 r) ''counter'' = VNum 6 \<and>
                  obj_get (dollar b') ''counter'' = VNum 0)
         | (Thrown e, w2) \<Rightarrow> False)"
    by code_simp
  show "case Roid (Some [(''state_1'', VNum 1)]) True None w0 of
      (r, w1) \<Rightarrow>
        (case Injection (Suc 0) r (Some [Key ''state_1'']) w1 of
           (Normal b, w2) \<Rightarrow>
             (case fn add_and_multiply [VNum 2] (b, w2) of
                (res, b', w3) \<Rightarrow>
                  res = Normal () \<and> get ''state_1'' b' = VNum 9 \<and>
                  obj_get (stores w3 r) ''state_1'' = VNum 9)
         | (Thrown e, w2) \<Rightarrow> False)"
    by code_simp
qed

text \<open>
  C5 (the code departs from it). Two entries \<^verbatim>\<open>{key, id}\<close> with one key and two ids are
  to be bound to two cells, shown as \<^verbatim>\<open>$["key.id1"]\<close> and \<^verbatim>\<open>$["key.id2"]\<close>. The loop of
  \<^verbatim>\<open>src/index.jsx\<close> never reads \<^verbatim>\<open>id\<close> (its imports \<^verbatim>\<open>atomFamily\<close> and \<^verbatim>\<open>selectorFamily\<close> are
  unused): for \<^verbatim>\<open>[{key: "k", id: "a"}, {key: "k", id: "b"}]\<close> both entries are bound to the
  one cell \<^verbatim>\<open>k\<close>, \<^verbatim>\<open>$\<close> and \<^verbatim>\<open>setters\<close> have the entry \<^verbatim>\<open>k\<close> and none for \<^verbatim>\<open>k.a\<close> or \<^verbatim>\<open>k.b\<close>, and
  \<^verbatim>\<open>set(1, "k.a")\<close> throws.
\<close>

theorem family_id_is_ignored:
  "case Injection (Suc 0) 0 (Some [Spec 0, Spec 1])
          (w0\<lparr>heap := (heap w0)(0 := (key_only ''k'')\<lparr>spec_id := Some (VStr ''a'')\<rparr>,
                                 1 := (key_only ''k'')\<lparr>spec_id := Some (VStr ''b'')\<rparr>)\<rparr>) of
     (Normal b, w) \<Rightarrow>
       dollar b ''k.a'' = None \<and> dollar b ''k.b'' = None \<and> dollar b ''k'' = Some VNull \<and>
       setters b ''k.a'' = None \<and> setters b ''k.b'' = None \<and>
       setters b ''k'' = Some (SetRecoil 0 (VCell ''k'')) \<and>
       fst (set_val (VNum 1) ''k.a'' (b, w)) = Thrown TypeError
   | (Thrown e, w) \<Rightarrow> False"
  by code_simp

text \<open>
  C6 (the code departs from it). The bag's \<^verbatim>\<open>val\<close> is to be the first argument unless that
  is nullish; the README calls \<^verbatim>\<open>val\<close> "a convenient shorthand for the first argument".
  Line 81 builds it as \<^verbatim>\<open>args[0] || {}\<close>, so a first argument that is falsy and not nullish
  is replaced too: \<^verbatim>\<open>fn(f)(0)\<close>, \<^verbatim>\<open>fn(f)("")\<close> and \<^verbatim>\<open>fn(f)(false)\<close> call \<open>f\<close> with \<^verbatim>\<open>val = {}\<close>
  (and with \<^verbatim>\<open>args\<close> as given).
\<close>

theorem fn_val_falsy_is_replaced:
  "fst (fn (\<lambda>bg. ret (val bg, args bg)) [VNum 0]
         (example_binding, example_world)) = Normal (VObj [], [VNum 0]) \<and>
   fst (fn (\<lambda>bg. ret (val bg, args bg)) [VStr []]
         (example_binding, example_world)) = Normal (VObj [], [VStr []]) \<and>
   fst (fn (\<lambda>bg. ret (val bg, args bg)) [VBool False]
         (example_binding, example_world)) = Normal (VObj [], [VBool False]) \<and>
   VObj [] \<noteq> VNum 0 \<and> VObj [] \<noteq> VStr [] \<and> VObj [] \<noteq> VBool False"
  by (simp add: fn_def call_bag_def arg0_def ret_def)




text \<open>
  C8. Two providers mounted with \<^verbatim>\<open>override\<close> true (the default) have two different
  roots. Whatever sequence of values a component rendered under the first writes to a key
  \<open>k\<close> through its \<^verbatim>\<open>set\<close>, the store of the second root is untouched, and a render under
  the second root of any entries gives the same \<^verbatim>\<open>$\<close> after the writes as before them.
\<close>

theorem sibling_roots_isolated:
  assumes "Roid d1 True p1 w = (r1, w1)" and "Roid d2 True p2 w1 = (r2, w2)"
    and "Injection fuel r1 es1 w2 = (Normal b1, w3)"
  shows "r1 \<noteq> r2 \<and>
         stores (snd (writes xs k (b1, w3))) r2 = stores w3 r2 \<and>
         fst (Injection fuel' r2 es2 (snd (writes xs k (b1, w3)))) = fst (Injection fuel' r2 es2 w3)"
proof -
  from Roid_new_root [OF assms(1)] Roid_new_root [OF assms(2)] have ne: "r2 \<noteq> r1" by simp
  have inv: "\<forall>k s. setters b1 k = Some s \<longrightarrow> (\<exists>c. s = SetRecoil r1 c)"
    using inject_loop_setters [OF assms(3) [unfolded Injection_def]] by simp
  from writes_stores [OF inv, of xs k w3] obtain S where
    S: "snd (writes xs k (b1, w3)) = w3\<lparr>stores := S\<rparr>" and
    fr: "\<forall>r'. r' \<noteq> r1 \<longrightarrow> S r' = stores w3 r'"
    by blast
  from fr ne have S2: "S r2 = stores w3 r2" by simp
  from Injection_stores [where S = S and r = r2 and w = w3, OF S2] S S2 ne show ?thesis by simp
qed

text \<open>
  The theorem at two sibling providers with the defaults 1 and 2 for \<^verbatim>\<open>k\<close>: after the
  writes 5 and 7 under the first, a render there shows 7 and a render under the second
  shows 1, as before the writes (the registry is shared, so the cell's default is the
  first provider's).
\<close>

theorem sibling_roots_isolated_witness:
  "(0::nat) \<noteq> Suc 0 \<and>
   fst (Injection (Suc 0) 0 (Some [Key ''k''])
         (snd (writes [VNum 5, VNum 7] ''k'' (siblings_binding 0, siblings_world)))) =
     Normal ((siblings_binding 0)\<lparr>dollar := [''k'' \<mapsto> VNum 7]\<rparr>) \<and>
   fst (Injection (Suc 0) (Suc 0) (Some [Key ''k''])
         (snd (writes [VNum 5, VNum 7] ''k'' (siblings_binding 0, siblings_world)))) =
     Normal (siblings_binding (Suc 0))"
proof -
  from sibling_roots_isolated
    [OF siblings_facts(1) siblings_facts(2) siblings_render [of 0],
     where xs = "[VNum 5, VNum 7]" and k = "''k''" and fuel' = "Suc 0"
       and ?es2.0 = "Some [Key ''k'']"]
  have 1: "(0::nat) \<noteq> Suc 0"
    and 2: "fst (Injection (Suc 0) (Suc 0) (Some [Key ''k''])
              (snd (writes [VNum 5, VNum 7] ''k'' (siblings_binding 0, siblings_world)))) =
            fst (Injection (Suc 0) (Suc 0) (Some [Key ''k'']) siblings_world)"
    by simp_all
  have 3: "fst (Injection (Suc 0) 0 (Some [Key ''k''])
              (snd (writes [VNum 5, VNum 7] ''k'' (siblings_binding 0, siblings_world)))) =
     Normal ((siblings_binding 0)\<lparr>dollar := [''k'' \<mapsto> VNum 7]\<rparr>)"
    by (simp add: set_val_def Let_def siblings_facts Injection_def entries_of_def inject_entry_def
        resolve_def register_atom_def useRecoilState_def obj_get_Some siblings_binding_def
        updated_set_plain)
  from 1 2 3 show ?thesis by (simp add: siblings_render)
qed

text \<open>
  C9, as stated, fails for a key that names a function of \<^verbatim>\<open>Object.prototype\<close>: \<^verbatim>\<open>setters\<close>
  inherits it, so \<^verbatim>\<open>setters[key](val)\<close> calls that function and returns. With only \<^verbatim>\<open>atom\<close>
  injected, \<^verbatim>\<open>set(5, "toString")\<close> does not throw. And for the key \<^verbatim>\<open>__proto__\<close> the shadow
  entry is not written: \<^verbatim>\<open>get("__proto__")\<close> after \<^verbatim>\<open>set(5, "__proto__")\<close> is
  \<^verbatim>\<open>Object.prototype\<close>, not 5.
\<close>

theorem set_inherited_name_counterexample:
  "case Injection (Suc 0) 0 (Some [Key ''atom'']) example_world of
     (Normal b, w) \<Rightarrow>
       entry_key example_world (Key ''atom'') \<noteq> ''toString'' \<and>
       entry_key example_world (Key ''atom'') \<noteq> ''__proto__'' \<and>
       fst (set_val (VNum 5) ''toString'' (b, w)) = Normal () \<and>
       get ''__proto__'' (fst (snd (set_val (VNum 5) ''__proto__'' (b, w)))) = VObjectPrototype
   | (Thrown e, w) \<Rightarrow> False"
  by code_simp

text \<open>
  C9, amended. For a key \<open>k\<close> that is not the key of any injected entry and does not name a
  member of \<^verbatim>\<open>Object.prototype\<close>, \<^verbatim>\<open>set(v, k)\<close> writes \<open>v\<close> to the shadow map, then throws a
  \<^verbatim>\<open>TypeError\<close> because there is no setter for \<open>k\<close>; the state of the process is as before
  (nothing is committed) and the shadow entry stays. If the caller catches the error,
  \<^verbatim>\<open>get(k)\<close> in the same render returns \<open>v\<close>: \<^verbatim>\<open>set\<close> is not atomic on error.
\<close>

theorem set_uninjected_key_not_atomic:
  assumes "Injection fuel r es w = (Normal b, w1)" and "k \<notin> entry_key w ` set (entries_of es)"
    and "k \<notin> set object_prototype_names"
  shows "set_val v k (b, w1) = (Thrown TypeError, b\<lparr>updated := (updated b)(k \<mapsto> v)\<rparr>, w1) \<and>
         seq (try_catch (set_val v k) (\<lambda>e. ret ())) (\<lambda>u. get_act k) (b, w1) =
           (Normal v, b\<lparr>updated := (updated b)(k \<mapsto> v)\<rparr>, w1)"
proof -
  from assms(3) have np: "k \<noteq> ''__proto__''" by (auto simp: object_prototype_names_def)
  from inject_loop_other_key [OF assms(1) [unfolded Injection_def] assms(2)]
  have d: "dollar b k = None" and s: "setters b k = None" by simp_all
  have sv: "set_val v k (b, w1) = (Thrown TypeError, b\<lparr>updated := (updated b)(k \<mapsto> v)\<rparr>, w1)"
    by (simp add: set_val_no_setter [OF np s] call_inherited_other [OF assms(3)])
  from get_after_set [OF np, of v b w1] sv
    obj_get_None [where m = "dollar b" and k = k, OF assms(3) d]
  have "get k (b\<lparr>updated := (updated b)(k \<mapsto> v)\<rparr>) = v" by (simp split: if_splits)
  with sv show ?thesis by (simp add: seq_def try_catch_def ret_def get_act_def)
qed

text \<open>The theorem at the example, for the key \<^verbatim>\<open>other\<close> that was not injected.\<close>

theorem set_uninjected_key_not_atomic_witness:
  "set_val (VNum 5) ''other'' (example_binding, example_world) =
     (Thrown TypeError, example_binding\<lparr>updated := [''other'' \<mapsto> VNum 5]\<rparr>, example_world) \<and>
   seq (try_catch (set_val (VNum 5) ''other'') (\<lambda>e. ret ())) (\<lambda>u. get_act ''other'')
       (example_binding, example_world) =
     (Normal (VNum 5), example_binding\<lparr>updated := [''other'' \<mapsto> VNum 5]\<rparr>, example_world)"
proof -
  have k: "''other'' \<notin> entry_key example_world ` set (entries_of (Some [Key ''atom'']))"
    by (simp add: entries_of_def entry_key_def)
  have n: "''other'' \<notin> set object_prototype_names"
    by (simp add: object_prototype_names_def object_prototype_functions_def)
  have u: "updated example_binding = Map.empty" by (simp add: example_binding_def)
  from set_uninjected_key_not_atomic [OF example_render k n, of "VNum 5"] u
  show ?thesis by simp
qed

text \<open>
  C10. Processing an entry that is an object with \<^verbatim>\<open>get\<close> replaces the \<^verbatim>\<open>get\<close> of the
  caller's object by the wrapper around the function that was there, whether or not the
  key is registered. After \<open>n\<close> renders that return, the function that was there at the
  start is under \<open>n\<close> wrappers for each time the object occurs in the array: \<open>n\<close> wrappers
  for an object listed once.
\<close>

theorem spec_get_wrapped_each_render:
  "spec_get (heap w a) = Some d \<Longrightarrow>
   spec_get (heap (snd (snd (resolve (Spec a) w))) a) = Some (Wrapper d) \<and>
   (renders n fuel r es w = Normal w' \<longrightarrow>
      spec_get (heap w' a) = Some ((Wrapper ^^ (n * count_list (entries_of es) (Spec a))) d))"
  using resolve_heap_get [of w a d "Spec a"] renders_heap_get [of n fuel r es w w' a d]
  by simp

text \<open>The theorem at the README's selector, after three renders.\<close>

theorem spec_get_wrapped_each_render_witness:
  "spec_get (heap (snd (snd (resolve (Spec (Suc 0)) example_world))) (Suc 0)) =
     Some (Wrapper (Derive example_derive)) \<and>
   (case renders 3 2 0 (Some [Key ''atom'', Spec (Suc 0)]) example_world of
      Normal w' \<Rightarrow>
        spec_get (heap w' (Suc 0)) = Some (Wrapper (Wrapper (Wrapper (Derive example_derive))))
    | Thrown e \<Rightarrow> False)"
proof -
  have h: "spec_get (heap example_world (Suc 0)) = Some (Derive example_derive)"
    by (simp add: run_defs)
  from example_renders obtain w' where
    r: "renders 3 2 0 (Some [Key ''atom'', Spec (Suc 0)]) example_world = Normal w'"
    by (cases "renders 3 2 0 (Some [Key ''atom'', Spec (Suc 0)]) example_world") simp_all
  from spec_get_wrapped_each_render
    [OF h, where n = 3 and fuel = 2 and r = 0 and es = "Some [Key ''atom'', Spec (Suc 0)]" and w' = w']
    r
  show ?thesis by (simp add: entries_of_def eval_nat_numeral)
qed

end
